theory Spec2Isabelle
  imports Complex_Main "HOL-Library.AList" "HOL-Library.Word"
begin

section \<open>Common data\<close>

text \<open>
  Python objects are handled by reference.  A reference is an address; \<open>id(x)\<close> of the
  source is \<open>id_of\<close>.  The exceptions raised by the modelled code are the values of
  \<open>error\<close>; a function that can raise returns \<open>Inl e\<close> together with the state at
  the moment of the raise.
\<close>

datatype ref = Ref nat

fun id_of :: "ref \<Rightarrow> nat" where
  "id_of (Ref n) = n"

datatype error =
    AtomicTraffic | OverwhelmedTraffic | UnavailableTraffic
  | TimeoutError | ValueError | KeyError | AssertionError

type_synonym byte = "8 word"

text \<open>
  A Python \<open>float\<close> is a binary64 number.  A finite one is modelled by the rational it
  denotes, and an operation by the exact operation followed by \<open>round_to_double\<close>, rounding
  to the nearest binary64 number with ties to even (the gradual underflow below
  \<open>2 ^ -1022\<close> included; the overflow to infinity beyond the largest binary64 number is
  not: the wait clocks below count seconds in steps of a millisecond).  \<open>bit_length\<close> is
  the number of binary digits of a positive integer, and \<open>one_ms\<close> the value of the literal
  \<open>0.001\<close>.
\<close>

function bit_length :: "int \<Rightarrow> int" where
  "bit_length n = (if n \<le> 0 then 0 else 1 + bit_length (n div 2))"
  by pat_completeness auto
termination
  by (relation "measure nat") auto

declare bit_length.simps [simp del]

definition pow2 :: "int \<Rightarrow> rat" where
  "pow2 k = (if 0 \<le> k then 2 ^ nat k else 1 / 2 ^ nat (- k))"

definition round_half_even :: "rat \<Rightarrow> int" where
  "round_half_even q =
     (let f = \<lfloor>q\<rfloor>; r = q - of_int f
      in if r < 1 / 2 then f
         else if 1 / 2 < r then f + 1
         else if even f then f else f + 1)"

text \<open>The exponent \<open>e\<close> of a positive rational: \<open>2 ^ e \<le> x < 2 ^ (e + 1)\<close>.\<close>

definition float_exponent :: "rat \<Rightarrow> int" where
  "float_exponent x =
     (let (p, q) = quotient_of x;
          d = bit_length p - bit_length q
      in if pow2 d \<le> x then d else d - 1)"

definition round_to_double :: "rat \<Rightarrow> rat" where
  "round_to_double x =
     (if x = 0 then 0
      else
        let a = \<bar>x\<bar>;
            ulp = pow2 (max (float_exponent a) (- 1022) - 52);
            y = of_int (round_half_even (a / ulp)) * ulp
        in if x < 0 then - y else y)"

definition float_add :: "rat \<Rightarrow> rat \<Rightarrow> rat" where
  "float_add x y = round_to_double (x + y)"

definition one_ms :: rat where
  "one_ms = round_to_double (1 / 1000)"

section \<open>backend/_base.py: ResponsePromise\<close>








section \<open>backend/_base.py: LowLevelResponse\<close>

text \<open>Python slices \<open>xs[:k]\<close> and \<open>xs[k:]\<close>; a negative \<open>k\<close> counts from the end.\<close>

definition py_take :: "int \<Rightarrow> 'a list \<Rightarrow> 'a list" where
  "py_take k xs = (if 0 \<le> k then take (nat k) xs else take (length xs - nat (- k)) xs)"

definition py_drop :: "int \<Rightarrow> 'a list \<Rightarrow> 'a list" where
  "py_drop k xs = (if 0 \<le> k then drop (nat k) xs else drop (length xs - nat (- k)) xs)"

text \<open>
  The body reader is a callable of the backend: given \<open>(size, stream_id)\<close> it consumes
  its transport and returns \<open>(bytes, end_of_transmission)\<close>.  The transport it consumes
  is its state \<open>'r\<close>, kept in the field \<open>reader_state\<close>.
\<close>

type_synonym 'r body_reader = "int option \<Rightarrow> int option \<Rightarrow> 'r \<Rightarrow> (byte list \<times> bool) \<times> 'r"

record 'r LowLevelResponse =
  internal_read_st :: "'r body_reader option"
  reader_state :: 'r
  closed :: bool
  eot :: bool
  r_stream_id :: "int option"
  buffer_excess :: "byte list"

definition LowLevelResponse_init ::
  "'r body_reader option \<Rightarrow> 'r \<Rightarrow> int option \<Rightarrow> 'r LowLevelResponse" where
  "LowLevelResponse_init body st sid =
     \<lparr> internal_read_st = body, reader_state = st,
       closed = (if body = None then True else False),
       eot = (if body = None then True else False),
       r_stream_id = sid, buffer_excess = [] \<rparr>"

definition read :: "'r LowLevelResponse \<Rightarrow> int option \<Rightarrow> (error + byte list) \<times> 'r LowLevelResponse" where
  "read self sz =
     (if closed self \<or> internal_read_st self = None then (Inl ValueError, self)
      else if sz = Some 0 then (Inr [], self)
      else
        let (data, self1) =
              (if \<not> eot self then
                 (case the (internal_read_st self) sz (r_stream_id self) (reader_state self) of
                    ((chunk, e), st') \<Rightarrow>
                      let self' = self\<lparr>eot := e, reader_state := st'\<rparr>
                      in if buffer_excess self' \<noteq> []
                         then (buffer_excess self' @ chunk, self'\<lparr>buffer_excess := []\<rparr>)
                         else (chunk, self'))
               else
                 (case sz of
                    None \<Rightarrow> (buffer_excess self, self)
                  | Some n \<Rightarrow> (py_take n (buffer_excess self),
                               self\<lparr>buffer_excess := py_drop n (buffer_excess self)\<rparr>)));
            (data2, self2) =
              (case sz of
                 None \<Rightarrow> (data, self1)
               | Some n \<Rightarrow>
                   if int (length data) > n
                   then (py_take n data, self1\<lparr>buffer_excess := py_drop n data\<rparr>)
                   else (data, self1));
            self3 = (if eot self2 \<and> length (buffer_excess self2) = 0
                     then self2\<lparr>closed := True\<rparr> else self2)
        in (Inr data2, self3))"

text \<open>Successive calls \<open>read(n)\<close> until the response is closed; \<open>fuel\<close> bounds the
  number of calls, and running out of it is \<open>None\<close>.\<close>

fun read_until_closed ::
  "nat \<Rightarrow> int \<Rightarrow> 'r LowLevelResponse
     \<Rightarrow> ((error + byte list list) \<times> 'r LowLevelResponse) option" where
  "read_until_closed 0 n self = (if closed self then Some (Inr [], self) else None)"
| "read_until_closed (Suc fuel) n self =
     (if closed self then Some (Inr [], self)
      else
        (case read self (Some n) of
           (Inl e, self') \<Rightarrow> Some (Inl e, self')
         | (Inr data, self') \<Rightarrow>
             (case read_until_closed fuel n self' of
                None \<Rightarrow> None
              | Some (Inl e, self'') \<Rightarrow> Some (Inl e, self'')
              | Some (Inr ds, self'') \<Rightarrow> Some (Inr (data # ds), self''))))"

text \<open>A body reader for examples: the transport is the bytes still on the wire, and a
  call hands over at most \<open>k + 1\<close> of them whatever size was asked for, reporting the
  end of the transmission with the last ones.\<close>

fun chunk_reader :: "nat \<Rightarrow> byte list body_reader" where
  "chunk_reader k sz sid rest =
     ((take (Suc k) rest, drop (Suc k) rest = []), drop (Suc k) rest)"

text \<open>
  What a body reader owes the response, relative to the bytes \<open>pending r\<close> its transport
  still holds: a call hands over a prefix of them, reports the end only when nothing is
  left, and makes progress (a chunk without bytes comes only with the end).
\<close>

definition reader_ok :: "'r body_reader \<Rightarrow> ('r \<Rightarrow> byte list) \<Rightarrow> bool" where
  "reader_ok rd pending \<longleftrightarrow>
     (\<forall>sz sid r. case rd sz sid r of
        ((chunk, e), r') \<Rightarrow>
          pending r = chunk @ pending r' \<and> (e \<longrightarrow> pending r' = []) \<and> (chunk = [] \<longrightarrow> e))"

text \<open>The bytes of the body not yet returned by \<open>read\<close>.\<close>

definition remaining :: "('r \<Rightarrow> byte list) \<Rightarrow> 'r LowLevelResponse \<Rightarrow> byte list" where
  "remaining pending self =
     buffer_excess self @ (if eot self then [] else pending (reader_state self))"

text \<open>The bytes one call \<open>read(n)\<close> has at hand: the overflow buffer, followed (before
  the end of the transmission) by the chunk the body reader hands over for this call.\<close>

definition at_hand :: "'r LowLevelResponse \<Rightarrow> int \<Rightarrow> byte list" where
  "at_hand self n =
     (if eot self then buffer_excess self
      else buffer_excess self
           @ fst (fst (the (internal_read_st self) (Some n) (r_stream_id self)
                        (reader_state self))))"



section \<open>util/_async/traffic_police.py: data\<close>

datatype TrafficState = IDLE | UNDER | SATURATED

text \<open>
  Modelled from the spec: the pool selection key is declared in \<open>poolmanager\<close>, which is
  not among the sources; the spec describes it as a tuple of scheme, host, port and TLS
  parameters, used as a key by value.
\<close>

type_synonym PoolKey = "string \<times> string \<times> nat \<times> string list"

text \<open>The keys of \<open>_map\<close> and \<open>_map_types\<close>: a pool key itself, or the \<open>id\<close> of a promise
  or of a response.  The members of \<open>MappableTraffic\<close> are the traffic indicators, and
  \<open>borrow\<close> and \<open>locate\<close> may also be handed a type.\<close>

datatype key = TupleKey PoolKey | IdKey nat

datatype traffic_type = PoolKeyType | ResponsePromiseType | AsyncHTTPResponseType

datatype MappableTraffic = OfPoolKey PoolKey | OfPromise ref | OfResponse ref

datatype indicator = Traffic MappableTraffic | TypeOf traffic_type

fun key_of :: "MappableTraffic \<Rightarrow> key" where
  "key_of (OfPoolKey pk) = TupleKey pk"
| "key_of (OfPromise r) = IdKey (id_of r)"
| "key_of (OfResponse r) = IdKey (id_of r)"

fun type_of :: "MappableTraffic \<Rightarrow> traffic_type" where
  "type_of (OfPoolKey pk) = PoolKeyType"
| "type_of (OfPromise r) = ResponsePromiseType"
| "type_of (OfResponse r) = AsyncHTTPResponseType"

text \<open>
  What the arbiter reads of a managed connection or pool: its \<open>is_idle\<close> and
  \<open>is_saturated\<close> attributes, and its \<open>pool\<close> attribute when that is itself an arbiter.
  The arbiter looks into a nested arbiter only through \<open>beacon\<close>, which for an indicator
  that is not a type reads nothing but its \<open>_map\<close>; \<open>pool\<close> is that \<open>_map\<close>, and \<open>None\<close>
  when the attribute is missing or is not an arbiter.  \<open>close_calls\<close> counts the calls of
  the item's \<open>close()\<close>, whose own exceptions the arbiter swallows.
\<close>

record managed =
  is_idle :: bool
  is_saturated :: bool
  pool :: "(key \<times> ref) list option"
  close_calls :: nat

text \<open>
  Modelled from the spec: \<open>traffic_state_of\<close> is imported from the synchronous
  \<open>util/traffic_police\<close> module, which is not among the sources.  The spec: \<open>IDLE\<close> iff
  \<open>item.is_idle\<close>; \<open>SATURATED\<close> iff \<open>item.is_saturated\<close>; else \<open>UNDER\<close>.
\<close>

definition traffic_state_of :: "managed \<Rightarrow> TrafficState" where
  "traffic_state_of m =
     (if is_idle m then IDLE else if is_saturated m then SATURATED else UNDER)"

text \<open>
  A Python \<open>dict\<close> keeps its keys in insertion order: it is an association list.
  \<open>d[k] = v\<close> is \<open>AList.update\<close> (an existing key keeps its place, a new one goes last),
  \<open>del d[k]\<close> and \<open>d.pop(k)\<close> are \<open>AList.delete\<close> after the check that raises
  \<open>KeyError\<close>, and \<open>d.popitem()\<close> takes the last pair.  \<open>push_front k v d\<close> is the
  idiom \<open>new = {k: v}; new.update(d)\<close> of the source.
\<close>

definition has_key :: "'k \<Rightarrow> ('k \<times> 'v) list \<Rightarrow> bool" where
  "has_key k d \<longleftrightarrow> k \<in> set (map fst d)"

definition push_front :: "'k \<Rightarrow> 'v \<Rightarrow> ('k \<times> 'v) list \<Rightarrow> ('k \<times> 'v) list" where
  "push_front k v d = fold (\<lambda>(k', v'). AList.update k' v') d [(k, v)]"

text \<open>
  The arbiter.  \<open>_cursor\<close> and \<open>_wait_clock\<close> are context variables: each task has its
  own value, \<open>None\<close> by default.  \<open>objects\<close> is the store of the managed items, by
  reference.  The wait clocks and the timeouts are floats, in seconds.
\<close>

type_synonym task = nat

record police =
  maxsize :: "int option"
  concurrency :: bool
  registry :: "(nat \<times> ref) list"
  container :: "(nat \<times> ref) list"
  map' :: "(key \<times> ref) list"
  map_types :: "(key \<times> traffic_type) list"
  shutdown :: bool
  ctx_cursor :: "task \<Rightarrow> (nat \<times> ref) option"
  ctx_wait_clock :: "task \<Rightarrow> rat option"
  objects :: "ref \<Rightarrow> managed"

definition AsyncTrafficPolice_init :: "int option \<Rightarrow> bool \<Rightarrow> (ref \<Rightarrow> managed) \<Rightarrow> police" where
  "AsyncTrafficPolice_init ms conc objs =
     \<lparr> maxsize = ms, concurrency = conc, registry = [], container = [], map' = [],
       map_types = [], shutdown = False, ctx_cursor = (\<lambda>t. None),
       ctx_wait_clock = (\<lambda>t. None), objects = objs \<rparr>"

type_synonym 'a result = "(error + 'a) \<times> police"

text \<open>
  \<open>await asyncio.sleep(0.001)\<close> hands control to the other tasks.  A schedule lists, for
  each sleep of the calling task in turn, what the other tasks do to the arbiter and to
  the items meanwhile.  A blocking method that has slept through the whole schedule and
  still waits has no result: \<open>None\<close>.
\<close>

type_synonym schedule = "(police \<Rightarrow> police) list"

datatype 'a iteration = Done "'a result" | Sleep police

definition set_cursor :: "task \<Rightarrow> (nat \<times> ref) option \<Rightarrow> police \<Rightarrow> police" where
  "set_cursor t v s = s\<lparr>ctx_cursor := (ctx_cursor s)(t := v)\<rparr>"

definition set_wait_clock :: "task \<Rightarrow> rat option \<Rightarrow> police \<Rightarrow> police" where
  "set_wait_clock t v s = s\<lparr>ctx_wait_clock := (ctx_wait_clock s)(t := v)\<rparr>"

definition close_item :: "ref \<Rightarrow> police \<Rightarrow> police" where
  "close_item c s =
     s\<lparr>objects := (objects s)(c := (objects s c)\<lparr>close_calls := Suc (close_calls (objects s c))\<rparr>)\<rparr>"

definition busy :: "task \<Rightarrow> police \<Rightarrow> bool" where
  "busy t s \<longleftrightarrow> ctx_cursor s t \<noteq> None"

section \<open>util/_async/traffic_police.py: waiting for a slot\<close>

text \<open>One turn of the loop of \<open>wait_for_unallocated_or_available_slot\<close>, up to the
  sleep: does the method return now?\<close>

definition unallocated_or_available :: "police \<Rightarrow> bool" where
  "unallocated_or_available s =
     (case maxsize s of
        None \<Rightarrow> True
      | Some m \<Rightarrow>
          if int (length (registry s)) < m then True
          else list_ex (\<lambda>(obj_id, conn_or_pool).
                  traffic_state_of (objects s conn_or_pool) \<noteq> SATURATED
                  \<and> has_key obj_id (container s)) (registry s))"

fun wait_for_unallocated_or_available_slot_loop ::
  "rat option \<Rightarrow> rat \<Rightarrow> schedule \<Rightarrow> police \<Rightarrow> unit result option" where
  "wait_for_unallocated_or_available_slot_loop timeout combined_wait [] s =
     (if unallocated_or_available s then Some (Inr (), s) else None)"
| "wait_for_unallocated_or_available_slot_loop timeout combined_wait (others # sched) s =
     (if unallocated_or_available s then Some (Inr (), s)
      else
        let s' = others s;
            combined_wait' = float_add combined_wait one_ms
        in if timeout \<noteq> None \<and> combined_wait' \<ge> combined_wait'
           then Some (Inl TimeoutError, s')
           else wait_for_unallocated_or_available_slot_loop timeout combined_wait' sched s')"

definition wait_for_unallocated_or_available_slot ::
  "rat option \<Rightarrow> schedule \<Rightarrow> police \<Rightarrow> unit result option" where
  "wait_for_unallocated_or_available_slot timeout sched s =
     wait_for_unallocated_or_available_slot_loop timeout 0 sched s"

definition idle_or_available :: "police \<Rightarrow> bool" where
  "idle_or_available s =
     (case maxsize s of
        None \<Rightarrow> True
      | Some m \<Rightarrow>
          if int (length (registry s)) < m then True
          else list_ex (\<lambda>(obj_id, conn_or_pool).
                  traffic_state_of (objects s conn_or_pool) = IDLE
                  \<and> has_key obj_id (container s)) (registry s))"

fun wait_for_idle_or_available_slot_loop ::
  "rat option \<Rightarrow> rat \<Rightarrow> schedule \<Rightarrow> police \<Rightarrow> unit result option" where
  "wait_for_idle_or_available_slot_loop timeout combined_wait [] s =
     (if idle_or_available s then Some (Inr (), s) else None)"
| "wait_for_idle_or_available_slot_loop timeout combined_wait (others # sched) s =
     (if idle_or_available s then Some (Inr (), s)
      else
        let s' = others s;
            combined_wait' = float_add combined_wait one_ms
        in if timeout \<noteq> None \<and> combined_wait' \<ge> combined_wait'
           then Some (Inl TimeoutError, s')
           else wait_for_idle_or_available_slot_loop timeout combined_wait' sched s')"

definition wait_for_idle_or_available_slot ::
  "rat option \<Rightarrow> schedule \<Rightarrow> police \<Rightarrow> unit result option" where
  "wait_for_idle_or_available_slot timeout sched s =
     wait_for_idle_or_available_slot_loop timeout 0 sched s"

text \<open>The loop of both methods as the specification describes it, not as the source has
  it: the timeout expires when \<open>combined_wait >= timeout\<close>.  It is here to be compared
  with the two loops above.\<close>

fun wait_for_slot_until_timeout ::
  "(police \<Rightarrow> bool) \<Rightarrow> rat option \<Rightarrow> rat \<Rightarrow> schedule \<Rightarrow> police \<Rightarrow> unit result option" where
  "wait_for_slot_until_timeout ready timeout combined_wait [] s =
     (if ready s then Some (Inr (), s) else None)"
| "wait_for_slot_until_timeout ready timeout combined_wait (others # sched) s =
     (if ready s then Some (Inr (), s)
      else
        let s' = others s;
            combined_wait' = float_add combined_wait one_ms
        in if timeout \<noteq> None \<and> combined_wait' \<ge> the timeout
           then Some (Inl TimeoutError, s')
           else wait_for_slot_until_timeout ready timeout combined_wait' sched s')"

section \<open>util/_async/traffic_police.py: destruction and eviction\<close>

fun del_outdated_keys :: "key list \<Rightarrow> police \<Rightarrow> unit result" where
  "del_outdated_keys [] s = (Inr (), s)"
| "del_outdated_keys (k # outdated_keys) s =
     (if \<not> has_key k (map' s) then (Inl KeyError, s)
      else
        let s1 = s\<lparr>map' := AList.delete k (map' s)\<rparr>
        in if \<not> has_key k (map_types s1) then (Inl KeyError, s1)
           else del_outdated_keys outdated_keys
                  (s1\<lparr>map_types := AList.delete k (map_types s1)\<rparr>))"

definition map_clear :: "ref \<Rightarrow> police \<Rightarrow> unit result" where
  "map_clear val s =
     (let obj_id = id_of val
      in if \<not> has_key obj_id (registry s) then (Inr (), s)
         else del_outdated_keys
                (map fst (filter (\<lambda>(k, v). id_of v = obj_id) (map' s))) s)"

definition kill_cursor :: "task \<Rightarrow> police \<Rightarrow> unit result" where
  "kill_cursor t s =
     (case ctx_cursor s t of
        None \<Rightarrow> (Inr (), s)
      | Some (obj_id, conn_or_pool) \<Rightarrow>
          (case map_clear conn_or_pool s of
             (Inl e, s1) \<Rightarrow> (Inl e, s1)
           | (Inr u, s1) \<Rightarrow>
               if \<not> has_key obj_id (registry s1) then (Inl KeyError, s1)
               else
                 let s2 = s1\<lparr>registry := AList.delete obj_id (registry s1)\<rparr>;
                     s3 = close_item conn_or_pool s2
                 in (Inr (), set_cursor t None s3)))"

definition sacrifice_first_idle :: "police \<Rightarrow> unit result" where
  "sacrifice_first_idle s =
     (if length (registry s) = 0 then (Inr (), s)
      else
        (case find (\<lambda>(obj_id, conn_or_pool).
                      has_key obj_id (container s)
                      \<and> traffic_state_of (objects s conn_or_pool) = IDLE) (registry s) of
           Some (eligible_obj_id, eligible_conn_or_pool) \<Rightarrow>
             (case map_clear eligible_conn_or_pool s of
                (Inl e, s1) \<Rightarrow> (Inl e, s1)
              | (Inr u, s1) \<Rightarrow>
                  if \<not> has_key eligible_obj_id (registry s1) then (Inl KeyError, s1)
                  else
                    let s2 = s1\<lparr>registry := AList.delete eligible_obj_id (registry s1)\<rparr>
                    in if \<not> has_key eligible_obj_id (container s2) then (Inl KeyError, s2)
                       else
                         let s3 = s2\<lparr>container := AList.delete eligible_obj_id (container s2)\<rparr>
                         in (Inr (), close_item eligible_conn_or_pool s3))
         | None \<Rightarrow> (Inl OverwhelmedTraffic, s)))"

section \<open>util/_async/traffic_police.py: indicators\<close>

definition memorize :: "task \<Rightarrow> MappableTraffic \<Rightarrow> ref option \<Rightarrow> police \<Rightarrow> unit result" where
  "memorize t traffic_indicator conn_or_pool s =
     (if conn_or_pool = None \<and> ctx_cursor s t = None then (Inl AtomicTraffic, s)
      else
        (case (case conn_or_pool of
                 None \<Rightarrow> Inr (snd (the (ctx_cursor s t)))
               | Some c \<Rightarrow>
                   if \<not> has_key (id_of c) (registry s) then Inl UnavailableTraffic
                   else Inr c) of
           Inl e \<Rightarrow> (Inl e, s)
         | Inr c \<Rightarrow>
             (Inr (),
              s\<lparr>map' := AList.update (key_of traffic_indicator) c (map' s),
                map_types := AList.update (key_of traffic_indicator) (type_of traffic_indicator)
                               (map_types s)\<rparr>)))"

definition forget :: "MappableTraffic \<Rightarrow> police \<Rightarrow> unit result" where
  "forget traffic_indicator s =
     (let k = key_of traffic_indicator
      in if \<not> has_key k (map' s) then (Inr (), s)
         else
           let s1 = s\<lparr>map' := AList.delete k (map' s)\<rparr>
           in if \<not> has_key k (map_types s1) then (Inl KeyError, s1)
              else (Inr (), s1\<lparr>map_types := AList.delete k (map_types s1)\<rparr>))"

fun memorize_all :: "task \<Rightarrow> MappableTraffic list \<Rightarrow> ref \<Rightarrow> police \<Rightarrow> unit result" where
  "memorize_all t [] conn_or_pool s = (Inr (), s)"
| "memorize_all t (i # traffic_indicators) conn_or_pool s =
     (case memorize t i (Some conn_or_pool) s of
        (Inl e, s1) \<Rightarrow> (Inl e, s1)
      | (Inr u, s1) \<Rightarrow> memorize_all t traffic_indicators conn_or_pool s1)"

section \<open>util/_async/traffic_police.py: put, get, release\<close>

definition put ::
  "task \<Rightarrow> ref \<Rightarrow> MappableTraffic list \<Rightarrow> bool \<Rightarrow> bool \<Rightarrow> police \<Rightarrow> unit result" where
  "put t conn_or_pool traffic_indicators block immediately_unavailable s =
     (if shutdown s then
        (case kill_cursor t s of
           (Inl e, s1) \<Rightarrow> (Inl e, s1)
         | (Inr u, s1) \<Rightarrow>
             (Inr (), if length (registry s1) = 0 then s1\<lparr>shutdown := False\<rparr> else s1))
      else
        (case (if maxsize s \<noteq> None \<and> int (length (registry s)) \<ge> the (maxsize s)
                  \<and> \<not> has_key (id_of conn_or_pool) (registry s)
               then sacrifice_first_idle s else (Inr (), s)) of
           (Inl e, s1) \<Rightarrow> (Inl e, s1)
         | (Inr u, s1) \<Rightarrow>
             let obj_id = id_of conn_or_pool;
                 registered_conn_or_pool = has_key obj_id (registry s1)
             in if registered_conn_or_pool \<and> has_key obj_id (container s1) then (Inr (), s1)
                else
                  let s2 = (if registered_conn_or_pool then
                              (case ctx_cursor s1 t of
                                 None \<Rightarrow> s1
                               | Some (taken_obj_id, taken_conn_or_pool) \<Rightarrow>
                                   if taken_obj_id = obj_id then set_cursor t None s1 else s1)
                            else s1\<lparr>registry := AList.update obj_id conn_or_pool (registry s1)\<rparr>);
                      s3 = (if \<not> immediately_unavailable then
                              s2\<lparr>container := push_front obj_id conn_or_pool (container s2)\<rparr>
                            else
                              let s2' = set_cursor t (Some (obj_id, conn_or_pool)) s2
                              in if concurrency s2'
                                 then s2'\<lparr>container := push_front obj_id conn_or_pool (container s2')\<rparr>
                                 else s2')
                  in memorize_all t traffic_indicators conn_or_pool s3))"

text \<open>One turn of the loop of \<open>get\<close>, up to the sleep.\<close>

definition get_iteration ::
  "task \<Rightarrow> bool \<Rightarrow> rat option \<Rightarrow> bool \<Rightarrow> bool \<Rightarrow> police \<Rightarrow> ref option iteration" where
  "get_iteration t block timeout non_saturated_only not_idle_only s =
     (if ctx_cursor s t \<noteq> None then Done (Inl AtomicTraffic, s)
      else if length (container s) = 0 \<and> maxsize s \<noteq> None
              \<and> the (maxsize s) > int (length (registry s)) then Done (Inr None, s)
      else
        let (picked, s1) =
              (if length (container s) > 0 then
                 (if non_saturated_only then
                    (case find (\<lambda>(cur_obj_id, cur_conn_or_pool).
                                  traffic_state_of (objects s cur_conn_or_pool) \<noteq> SATURATED)
                            (container s) of
                       None \<Rightarrow> (None, s)
                     | Some (obj_id, c) \<Rightarrow>
                         (Some (obj_id, c), s\<lparr>container := AList.delete obj_id (container s)\<rparr>))
                  else if \<not> not_idle_only then
                    (Some (last (container s)), s\<lparr>container := butlast (container s)\<rparr>)
                  else
                    (case find (\<lambda>(cur_obj_id, cur_conn_or_pool).
                                  traffic_state_of (objects s cur_conn_or_pool) \<noteq> IDLE)
                            (container s) of
                       None \<Rightarrow> (None, s)
                     | Some (obj_id, c) \<Rightarrow>
                         (Some (obj_id, c), s\<lparr>container := AList.delete obj_id (container s)\<rparr>)))
               else (None, s))
        in (case picked of
              Some (obj_id, conn_or_pool) \<Rightarrow>
                let s2 = set_cursor t (Some (obj_id, conn_or_pool)) s1;
                    s3 = (if concurrency s2
                          then s2\<lparr>container := push_front obj_id conn_or_pool (container s2)\<rparr>
                          else s2);
                    s4 = (if timeout \<noteq> None then set_wait_clock t None s3 else s3)
                in Done (Inr (Some conn_or_pool), s4)
            | None \<Rightarrow>
                if block then Sleep s1 else Done (Inl UnavailableTraffic, s1)))"

text \<open>After the sleep of \<open>get\<close>: the wait clock advances, and the timeout may expire.\<close>

definition get_after_sleep :: "task \<Rightarrow> rat option \<Rightarrow> police \<Rightarrow> ref option iteration" where
  "get_after_sleep t timeout s =
     (case timeout of
        None \<Rightarrow> Sleep s
      | Some limit \<Rightarrow>
          (case ctx_wait_clock s t of
             None \<Rightarrow> Done (Inl AssertionError, s)
           | Some w \<Rightarrow>
               let s1 = set_wait_clock t (Some (float_add w one_ms)) s
               in if float_add w one_ms \<ge> limit
                  then Done (Inl UnavailableTraffic, set_wait_clock t None s1)
                  else Sleep s1))"

fun get_loop ::
  "task \<Rightarrow> bool \<Rightarrow> rat option \<Rightarrow> bool \<Rightarrow> bool \<Rightarrow> schedule \<Rightarrow> police
     \<Rightarrow> ref option result option" where
  "get_loop t block timeout non_saturated_only not_idle_only [] s =
     (case get_iteration t block timeout non_saturated_only not_idle_only s of
        Done r \<Rightarrow> Some r
      | Sleep s1 \<Rightarrow> None)"
| "get_loop t block timeout non_saturated_only not_idle_only (others # sched) s =
     (case get_iteration t block timeout non_saturated_only not_idle_only s of
        Done r \<Rightarrow> Some r
      | Sleep s1 \<Rightarrow>
          (case get_after_sleep t timeout (others s1) of
             Done r \<Rightarrow> Some r
           | Sleep s2 \<Rightarrow> get_loop t block timeout non_saturated_only not_idle_only sched s2))"

definition get ::
  "task \<Rightarrow> bool \<Rightarrow> rat option \<Rightarrow> bool \<Rightarrow> bool \<Rightarrow> schedule \<Rightarrow> police
     \<Rightarrow> ref option result option" where
  "get t block timeout non_saturated_only not_idle_only sched s =
     get_loop t block timeout non_saturated_only not_idle_only sched
       (if timeout \<noteq> None then set_wait_clock t (Some 0) s else s)"

definition release :: "task \<Rightarrow> police \<Rightarrow> police" where
  "release t s =
     (case ctx_cursor s t of
        None \<Rightarrow> s
      | Some (obj_id, conn_or_pool) \<Rightarrow>
          set_cursor t None
            (if \<not> concurrency s
             then s\<lparr>container := push_front obj_id conn_or_pool (container s)\<rparr>
             else s))"

section \<open>util/_async/traffic_police.py: locate and borrow\<close>

text \<open>\<open>beacon\<close> of a nested arbiter, for an indicator that is not a type.\<close>

definition beacon :: "MappableTraffic \<Rightarrow> (key \<times> ref) list \<Rightarrow> bool" where
  "beacon traffic_indicator nested_map = has_key (key_of traffic_indicator) nested_map"

text \<open>The first part of \<open>locate\<close>: the item the indicator leads to, with the id it is
  looked up under, from \<open>_map\<close> or else from the first registered item whose nested arbiter
  knows the indicator.\<close>

definition locate_target :: "MappableTraffic \<Rightarrow> police \<Rightarrow> (ref \<times> nat) option" where
  "locate_target traffic_indicator s =
     (case map_of (map' s) (key_of traffic_indicator) of
        Some conn_or_pool \<Rightarrow> Some (conn_or_pool, id_of conn_or_pool)
      | None \<Rightarrow>
          (case find (\<lambda>(r_obj_id, r_conn_or_pool).
                        case pool (objects s r_conn_or_pool) of
                          None \<Rightarrow> False
                        | Some nested_map \<Rightarrow> beacon traffic_indicator nested_map)
                  (registry s) of
             None \<Rightarrow> None
           | Some (r_obj_id, r_conn_or_pool) \<Rightarrow> Some (r_conn_or_pool, r_obj_id)))"

text \<open>One turn of the loop of \<open>locate\<close>, up to the sleep.\<close>

definition locate_iteration ::
  "task \<Rightarrow> nat \<Rightarrow> ref \<Rightarrow> bool \<Rightarrow> rat option \<Rightarrow> police \<Rightarrow> ref option iteration" where
  "locate_iteration t obj_id conn_or_pool block timeout s =
     (case ctx_cursor s t of
        Some (cursor_obj_id, cursor_conn_or_pool) \<Rightarrow>
          if cursor_obj_id = obj_id then Done (Inr (Some cursor_conn_or_pool), s)
          else Done (Inl AtomicTraffic, s)
      | None \<Rightarrow>
          if \<not> has_key obj_id (container s) then
            (if \<not> block then Done (Inl UnavailableTraffic, s) else Sleep s)
          else
            let s1 = (if \<not> concurrency s
                      then s\<lparr>container := AList.delete obj_id (container s)\<rparr> else s);
                s2 = set_cursor t (Some (obj_id, conn_or_pool)) s1;
                s3 = (if timeout \<noteq> None then set_wait_clock t None s2 else s2)
            in Done (Inr (Some conn_or_pool), s3))"

definition locate_after_sleep :: "task \<Rightarrow> rat option \<Rightarrow> police \<Rightarrow> ref option iteration" where
  "locate_after_sleep t timeout s =
     (case timeout of
        None \<Rightarrow> Sleep s
      | Some limit \<Rightarrow>
          (case ctx_wait_clock s t of
             None \<Rightarrow> Done (Inl AssertionError, s)
           | Some w \<Rightarrow>
               let s1 = set_wait_clock t (Some (float_add w one_ms)) s
               in if float_add w one_ms \<ge> limit then Done (Inl TimeoutError, s1) else Sleep s1))"

fun locate_loop ::
  "task \<Rightarrow> nat \<Rightarrow> ref \<Rightarrow> bool \<Rightarrow> rat option \<Rightarrow> schedule \<Rightarrow> police
     \<Rightarrow> ref option result option" where
  "locate_loop t obj_id conn_or_pool block timeout [] s =
     (case locate_iteration t obj_id conn_or_pool block timeout s of
        Done r \<Rightarrow> Some r
      | Sleep s1 \<Rightarrow> None)"
| "locate_loop t obj_id conn_or_pool block timeout (others # sched) s =
     (case locate_iteration t obj_id conn_or_pool block timeout s of
        Done r \<Rightarrow> Some r
      | Sleep s1 \<Rightarrow>
          (case locate_after_sleep t timeout (others s1) of
             Done r \<Rightarrow> Some r
           | Sleep s2 \<Rightarrow> locate_loop t obj_id conn_or_pool block timeout sched s2))"

definition locate ::
  "task \<Rightarrow> indicator \<Rightarrow> bool \<Rightarrow> rat option \<Rightarrow> schedule \<Rightarrow> police
     \<Rightarrow> ref option result option" where
  "locate t traffic_indicator block timeout sched s =
     (let s0 = (if timeout \<noteq> None \<and> ctx_wait_clock s t = None
                then set_wait_clock t (Some 0) s else s)
      in case traffic_indicator of
           TypeOf ty \<Rightarrow> Some (Inl ValueError, s0)
         | Traffic ti \<Rightarrow>
             (case locate_target ti s0 of
                None \<Rightarrow> Some (Inr None, s0)
              | Some (conn_or_pool, obj_id) \<Rightarrow>
                  locate_loop t obj_id conn_or_pool block timeout sched s0))"

text \<open>One pass of \<open>_find_by\<close> over \<open>_map_types\<close>: the item found, or else whether any
  entry of the type belongs to an item that is not idle.\<close>

fun find_by_scan ::
  "traffic_type \<Rightarrow> (key \<times> traffic_type) list \<Rightarrow> bool \<Rightarrow> police \<Rightarrow> error + (ref option \<times> bool)" where
  "find_by_scan traffic_type [] any_match s = Inr (None, any_match)"
| "find_by_scan traffic_type ((k, v) # rest) any_match s =
     (if v = traffic_type then
        (case map_of (map' s) k of
           None \<Rightarrow> Inl KeyError
         | Some conn_or_pool \<Rightarrow>
             if is_idle (objects s conn_or_pool)
             then find_by_scan traffic_type rest any_match s
             else if has_key (id_of conn_or_pool) (container s)
             then Inr (Some conn_or_pool, True)
             else find_by_scan traffic_type rest True s)
      else find_by_scan traffic_type rest any_match s)"

fun find_by :: "traffic_type \<Rightarrow> bool \<Rightarrow> schedule \<Rightarrow> police \<Rightarrow> ref option result option" where
  "find_by traffic_type block [] s =
     (case find_by_scan traffic_type (map_types s) False s of
        Inl e \<Rightarrow> Some (Inl e, s)
      | Inr (Some conn_or_pool, any_match) \<Rightarrow> Some (Inr (Some conn_or_pool), s)
      | Inr (None, any_match) \<Rightarrow>
          if \<not> block then Some (Inr None, s)
          else if any_match then None
          else Some (Inr None, s))"
| "find_by traffic_type block (others # sched) s =
     (case find_by_scan traffic_type (map_types s) False s of
        Inl e \<Rightarrow> Some (Inl e, s)
      | Inr (Some conn_or_pool, any_match) \<Rightarrow> Some (Inr (Some conn_or_pool), s)
      | Inr (None, any_match) \<Rightarrow>
          if \<not> block then Some (Inr None, s)
          else if any_match then find_by traffic_type block sched (others s)
          else Some (Inr None, s))"

text \<open>
  \<open>borrow\<close> is a context manager.  \<open>borrow_enter\<close> is the part before the \<open>yield\<close>: it
  returns the item handed to the body of the \<open>with\<close> block, or the exception, and in the
  latter case the \<open>finally\<close> clause has already run \<open>release\<close>.  Leaving the block runs
  \<open>release\<close>: \<open>borrow_exit\<close>.
\<close>

definition borrow_acquire ::
  "task \<Rightarrow> indicator option \<Rightarrow> bool \<Rightarrow> rat option \<Rightarrow> bool \<Rightarrow> schedule \<Rightarrow> police
     \<Rightarrow> ref option result option" where
  "borrow_acquire t traffic_indicator block timeout not_idle_only sched s =
     (case traffic_indicator of
        Some (TypeOf ty) \<Rightarrow>
          (case find_by ty True sched s of
             None \<Rightarrow> None
           | Some (Inl e, s1) \<Rightarrow> Some (Inl e, s1)
           | Some (Inr None, s1) \<Rightarrow> Some (Inr None, s1)
           | Some (Inr (Some conn_or_pool), s1) \<Rightarrow>
               let obj_id = id_of conn_or_pool
               in if (case ctx_cursor s1 t of
                        None \<Rightarrow> False
                      | Some (cursor_obj_id, cursor_conn_or_pool) \<Rightarrow> cursor_obj_id \<noteq> obj_id)
                  then Some (Inl AtomicTraffic, s1)
                  else if \<not> concurrency s1 \<and> \<not> has_key obj_id (container s1)
                  then Some (Inl KeyError, s1)
                  else
                    let s2 = (if \<not> concurrency s1
                              then s1\<lparr>container := AList.delete obj_id (container s1)\<rparr>
                              else s1)
                    in Some (Inr (Some conn_or_pool),
                             set_cursor t (Some (obj_id, conn_or_pool)) s2))
      | Some (Traffic ti) \<Rightarrow> locate t (Traffic ti) block timeout sched s
      | None \<Rightarrow>
          (case ctx_cursor s t of
             Some (obj_id, conn_or_pool) \<Rightarrow> Some (Inr (Some conn_or_pool), s)
           | None \<Rightarrow> get t block timeout False not_idle_only sched s))"

definition borrow_enter ::
  "task \<Rightarrow> indicator option \<Rightarrow> bool \<Rightarrow> rat option \<Rightarrow> bool \<Rightarrow> schedule \<Rightarrow> police
     \<Rightarrow> ref result option" where
  "borrow_enter t traffic_indicator block timeout not_idle_only sched s =
     (case borrow_acquire t traffic_indicator block timeout not_idle_only sched s of
        None \<Rightarrow> None
      | Some (Inl e, s1) \<Rightarrow> Some (Inl e, release t s1)
      | Some (Inr None, s1) \<Rightarrow> Some (Inl UnavailableTraffic, release t s1)
      | Some (Inr (Some conn_or_pool), s1) \<Rightarrow> Some (Inr conn_or_pool, s1))"

definition borrow_exit :: "task \<Rightarrow> police \<Rightarrow> police" where
  "borrow_exit t s = release t s"

section \<open>util/_async/traffic_police.py: clear\<close>

fun clear_planned :: "task \<Rightarrow> nat list \<Rightarrow> police \<Rightarrow> unit result" where
  "clear_planned t [] s = (Inr (), s)"
| "clear_planned t (obj_id # planned_removal) s =
     (case map_of (registry s) obj_id of
        None \<Rightarrow> (Inl KeyError, s)
      | Some conn_or_pool \<Rightarrow>
          let s1 = s\<lparr>registry := AList.delete obj_id (registry s)\<rparr>;
              s2 = close_item conn_or_pool s1
          in (case map_clear conn_or_pool s2 of
                (Inl e, s3) \<Rightarrow> (Inl e, s3)
              | (Inr u, s3) \<Rightarrow> clear_planned t planned_removal s3))"

definition clear :: "task \<Rightarrow> police \<Rightarrow> unit result" where
  "clear t s =
     (let planned_removal =
            map fst (filter (\<lambda>(obj_id, conn_or_pool).
                               traffic_state_of (objects s conn_or_pool) = IDLE) (container s));
          s1 = s\<lparr>container := fold AList.delete planned_removal (container s)\<rparr>;
          s2 = (if length (registry s1) > length planned_removal
                then s1\<lparr>shutdown := True\<rparr> else s1)
      in case clear_planned t planned_removal s2 of
           (Inl e, s3) \<Rightarrow> (Inl e, s3)
         | (Inr u, s3) \<Rightarrow>
             (Inr (),
              case ctx_cursor s3 t of
                None \<Rightarrow> s3
              | Some (cursor_obj_id, conn_or_pool) \<Rightarrow>
                  if cursor_obj_id \<in> set planned_removal then set_cursor t None s3 else s3))"

section \<open>Well-formed arbiters and example items\<close>

text \<open>
  The dictionaries of a well-formed arbiter: \<open>_registry\<close> files each item under its \<open>id\<close>,
  and \<open>_map\<close>, a \<open>dict\<close>, has no key twice and no key that \<open>_map_types\<close> lacks (the source
  writes and deletes a key in both together).  It holds of a fresh arbiter, and \<open>put\<close>,
  \<open>memorize\<close>, \<open>forget\<close> and \<open>kill_cursor\<close> maintain it, as is proved at the end.
\<close>

definition dicts_ok :: "police \<Rightarrow> bool" where
  "dicts_ok s \<longleftrightarrow>
     list_all (\<lambda>(obj_id, conn_or_pool). obj_id = id_of conn_or_pool) (registry s)
     \<and> distinct (map fst (map' s))
     \<and> list_all (\<lambda>k. has_key k (map_types s)) (map fst (map' s))"

definition idle_item :: managed where
  "idle_item = \<lparr>is_idle = True, is_saturated = False, pool = None, close_calls = 0\<rparr>"

definition used_item :: managed where
  "used_item = \<lparr>is_idle = False, is_saturated = False, pool = None, close_calls = 0\<rparr>"

text \<open>Arbiters for examples, each reached from a fresh arbiter by the calls shown.\<close>

definition two_puts :: police where
  "two_puts = snd (put 0 (Ref 2) [] False False
                (snd (put 0 (Ref 1) [] False False
                   (AsyncTrafficPolice_init None False (\<lambda>r. idle_item)))))"

definition full_house :: police where
  "full_house = snd (put 0 (Ref 1) [] False True
                   (AsyncTrafficPolice_init (Some 1) False (\<lambda>r. used_item)))"

definition shutting_down :: police where
  "shutting_down = snd (clear 2 (snd (put 1 (Ref 1) [] False True
                   (AsyncTrafficPolice_init None False (\<lambda>r. used_item)))))"

definition holding_one :: police where
  "holding_one = snd (put 0 (Ref 1) [] False True
                   (AsyncTrafficPolice_init (Some 2) False (\<lambda>r. used_item)))"

definition shared_in_shutdown :: police where
  "shared_in_shutdown = snd (clear 2 (snd (put 0 (Ref 1) [] False True
                   (AsyncTrafficPolice_init None True (\<lambda>r. used_item)))))"

definition one_held_one_free :: police where
  "one_held_one_free = snd (put 0 (Ref 1) [] False True
        (snd (put 0 (Ref 2) [] False False
                   (AsyncTrafficPolice_init None False (\<lambda>r. used_item)))))"

definition pool_item :: managed where
  "pool_item = \<lparr>is_idle = False, is_saturated = False,
                 pool = Some [(IdKey 10, Ref 5)], close_calls = 0\<rparr>"

definition manager :: police where
  "manager = snd (put 0 (Ref 1) [] False False
                   (AsyncTrafficPolice_init None False (\<lambda>r. pool_item)))"







section \<open>Verification: ResponsePromise\<close>




section \<open>Verification: LowLevelResponse.read\<close>

lemma read_live:
  assumes rd: "internal_read_st self = Some rd" and op: "\<not> closed self" and n: "0 < n"
    and live: "\<not> eot self"
    and c: "rd (Some n) (r_stream_id self) (reader_state self) = ((chunk, e), r')"
  shows "read self (Some n) =
           (Inr (take (nat n) (buffer_excess self @ chunk)),
            self\<lparr>eot := e, reader_state := r',
                 buffer_excess := drop (nat n) (buffer_excess self @ chunk),
                 closed := e \<and> \<not> n < int (length (buffer_excess self @ chunk))\<rparr>)"
  using assms
  by (cases "buffer_excess self = []") (auto simp: read_def py_take_def py_drop_def Let_def)

lemma read_drained:
  assumes rd: "internal_read_st self = Some rd" and op: "\<not> closed self" and n: "0 < n"
    and fin: "eot self"
  shows "read self (Some n) =
           (Inr (take (nat n) (buffer_excess self)),
            self\<lparr>buffer_excess := drop (nat n) (buffer_excess self),
                 closed := \<not> n < int (length (buffer_excess self))\<rparr>)"
  using assms
  by (auto simp: read_def py_take_def py_drop_def Let_def)

lemma reader_okD:
  assumes "reader_ok rd pending" and "rd sz sid r = ((chunk, e), r')"
  shows "pending r = chunk @ pending r'" and "e \<Longrightarrow> pending r' = []" and "chunk = [] \<Longrightarrow> e"
proof -
  from assms(1) have "case rd sz sid r of
        ((chunk, e), r') \<Rightarrow> pending r = chunk @ pending r' \<and> (e \<longrightarrow> pending r' = []) \<and> (chunk = [] \<longrightarrow> e)"
    unfolding reader_ok_def
    apply (erule_tac x=sz in allE)
    apply (erule_tac x=sid in allE)
    apply (erule_tac x=r in allE)
    apply assumption
    done
  with assms(2) show "pending r = chunk @ pending r'" and "e \<Longrightarrow> pending r' = []" and "chunk = [] \<Longrightarrow> e"
    by simp_all
qed

lemma read_step:
  assumes ok: "reader_ok rd pending" and rd: "internal_read_st self = Some rd"
    and op: "\<not> closed self" and n: "0 < n"
  shows "\<exists>data self'. read self (Some n) = (Inr data, self')
           \<and> data @ remaining pending self' = remaining pending self
           \<and> length data \<le> nat n
           \<and> internal_read_st self' = Some rd
           \<and> (closed self' \<longrightarrow> remaining pending self' = [])
           \<and> (data = [] \<longrightarrow> closed self')"
proof (cases "eot self")
  case True
  show ?thesis
    unfolding read_drained[OF rd op n True] using True rd n
    by (auto simp: remaining_def)
next
  case False
  obtain chunk e r' where c: "rd (Some n) (r_stream_id self) (reader_state self) = ((chunk, e), r')"
    by (metis prod.exhaust)
  note p = reader_okD[OF ok c]
  define av where "av = buffer_excess self @ chunk"
  have rl: "read self (Some n) =
           (Inr (take (nat n) av),
            self\<lparr>eot := e, reader_state := r', buffer_excess := drop (nat n) av,
                 closed := e \<and> \<not> n < int (length av)\<rparr>)"
    unfolding av_def by (rule read_live[OF rd op n False c])
  have rem: "remaining pending self = av @ pending r'"
    by (simp add: remaining_def False p(1) av_def)
  have split: "take (nat n) av @ drop (nat n) av @ X = av @ X" for X
    by (simp flip: append_assoc)
  have empty: "take (nat n) av = [] \<Longrightarrow> av = []"
    using n by (cases av) simp_all
  define self' where "self' = self\<lparr>eot := e, reader_state := r', buffer_excess := drop (nat n) av,
                 closed := e \<and> \<not> n < int (length av)\<rparr>"
  have new_rem: "remaining pending self' = drop (nat n) av @ pending r'"
    using p(2) by (simp add: remaining_def self'_def)
  have "take (nat n) av @ remaining pending self' = remaining pending self"
    unfolding new_rem rem by (rule split)
  moreover have "closed self' \<longrightarrow> remaining pending self' = []"
    unfolding new_rem using p(2) by (auto simp: self'_def)
  moreover have "take (nat n) av = [] \<longrightarrow> closed self'"
  proof
    assume "take (nat n) av = []"
    then have a: "av = []" by (rule empty)
    then have "chunk = []" by (simp add: av_def)
    then have e by (rule p(3))
    with a n show "closed self'" by (simp add: self'_def)
  qed
  moreover have "internal_read_st self' = Some rd"
    using rd by (simp add: self'_def)
  moreover have "read self (Some n) = (Inr (take (nat n) av), self')"
    unfolding self'_def by (rule rl)
  ultimately show ?thesis by simp
qed

lemma read_all:
  assumes ok: "reader_ok rd pending" and n: "0 < n"
  shows "internal_read_st self = Some rd \<Longrightarrow> \<not> closed self \<Longrightarrow> length (remaining pending self) < fuel
    \<Longrightarrow> \<exists>ds self'. read_until_closed fuel n self = Some (Inr ds, self')
           \<and> concat ds = remaining pending self \<and> closed self' \<and> (\<forall>d \<in> set ds. length d \<le> nat n)"
proof (induction fuel arbitrary: self)
  case 0
  then show ?case by simp
next
  case (Suc fuel)
  from read_step[OF ok Suc.prems(1) Suc.prems(2) n]
  obtain data self1 where r: "read self (Some n) = (Inr data, self1)"
    and eq: "data @ remaining pending self1 = remaining pending self"
    and le: "length data \<le> nat n" and rd1: "internal_read_st self1 = Some rd"
    and cl: "closed self1 \<longrightarrow> remaining pending self1 = []"
    and pr: "data = [] \<longrightarrow> closed self1" by blast
  show ?case
  proof (cases "closed self1")
    case True
    then have "read_until_closed fuel n self1 = Some (Inr [], self1)" by (cases fuel) simp_all
    with r eq cl True le Suc.prems(2) show ?thesis by auto
  next
    case False
    with pr have "0 < length data" by simp
    moreover have "length (remaining pending self) = length data + length (remaining pending self1)"
      using eq by (metis length_append)
    ultimately have "length (remaining pending self1) < fuel" using Suc.prems(3) by linarith
    from Suc.IH[OF rd1 False this] obtain ds self2 where
      "read_until_closed fuel n self1 = Some (Inr ds, self2)" "concat ds = remaining pending self1"
      "closed self2" "\<forall>d \<in> set ds. length d \<le> nat n" by blast
    with r eq le Suc.prems(2) show ?thesis by auto
  qed
qed

lemma chunk_reader_ok: "reader_ok (chunk_reader k) (\<lambda>r. r)"
  unfolding reader_ok_def by auto

lemma read_at_hand:
  assumes rd: "internal_read_st self \<noteq> None" and op: "\<not> closed self" and n: "0 < n"
  shows "\<exists>self'. read self (Some n) = (Inr (take (nat n) (at_hand self n)), self')
           \<and> buffer_excess self' = drop (nat n) (at_hand self n)"
  using assms
  by (auto simp: read_def at_hand_def py_take_def py_drop_def Let_def split: prod.splits)

text \<open>
  C6 (as stated): \<open>read(n)\<close> returns exactly \<open>min(n, remaining)\<close> bytes.  With a body
  reader that hands over one byte per call and a body of three bytes, \<open>read(2)\<close> returns
  one byte.
\<close>

theorem read_short_chunk_counterexample:
  "fst (read (LowLevelResponse_init (Some (chunk_reader 0)) [1, 2, 3] (Some 1)) (Some 2)) = Inr [1]
   \<and> length [1 :: byte]
       \<noteq> min 2 (length (remaining (\<lambda>r. r)
                 (LowLevelResponse_init (Some (chunk_reader 0)) [1, 2, 3] (Some 1))))"
  by (simp add: read_def LowLevelResponse_init_def remaining_def Let_def)

text \<open>
  C6 (amended): on an open response and for a positive \<open>n\<close>, \<open>read(n)\<close> returns the first
  \<open>min(n, at hand)\<close> bytes of what it has at hand (the overflow buffer followed by the
  chunk the body reader hands over for this call), stores the bytes beyond \<open>n\<close> in the
  overflow buffer, and takes the returned bytes off the front of the remaining body; with
  a body reader that hands over the body in order and makes progress, successive calls
  \<open>read(n)\<close> close the response after at most \<open>remaining + 1\<close> calls, each returns at most
  \<open>n\<close> bytes, and the concatenation of what they return is the remaining body.
\<close>

theorem read_exact_slicing:
  assumes "reader_ok rd pending" and "internal_read_st self = Some rd"
    and "\<not> closed self" and "0 < n"
  shows "(\<exists>data self'. read self (Some n) = (Inr data, self')
            \<and> data = take (nat n) (at_hand self n)
            \<and> length data = min (nat n) (length (at_hand self n))
            \<and> buffer_excess self' = drop (nat n) (at_hand self n)
            \<and> data @ remaining pending self' = remaining pending self)
         \<and> (length (remaining pending self) < fuel \<longrightarrow>
              (\<exists>ds self'. read_until_closed fuel n self = Some (Inr ds, self')
                 \<and> concat ds = remaining pending self \<and> closed self'
                 \<and> (\<forall>d \<in> set ds. length d \<le> nat n)))"
proof -
  from read_step[OF assms] obtain data self' where
    r: "read self (Some n) = (Inr data, self')"
    and eq: "data @ remaining pending self' = remaining pending self" by blast
  from read_at_hand[of self n] assms(2,3,4) obtain self'' where
    r': "read self (Some n) = (Inr (take (nat n) (at_hand self n)), self'')"
    and ex: "buffer_excess self'' = drop (nat n) (at_hand self n)" by auto
  from r r' have "data = take (nat n) (at_hand self n)" and "self'' = self'" by simp_all
  with r eq ex have first: "\<exists>data self'. read self (Some n) = (Inr data, self')
            \<and> data = take (nat n) (at_hand self n)
            \<and> length data = min (nat n) (length (at_hand self n))
            \<and> buffer_excess self' = drop (nat n) (at_hand self n)
            \<and> data @ remaining pending self' = remaining pending self"
    by (simp add: min.commute)
  have "length (remaining pending self) < fuel \<longrightarrow>
              (\<exists>ds self'. read_until_closed fuel n self = Some (Inr ds, self')
                 \<and> concat ds = remaining pending self \<and> closed self'
                 \<and> (\<forall>d \<in> set ds. length d \<le> nat n))"
    using read_all[OF assms(1) assms(4) assms(2) assms(3)] by blast
  with first show ?thesis by blast
qed

theorem read_exact_slicing_witness:
  "\<exists>ds self'.
     read_until_closed 6 2 (LowLevelResponse_init (Some (chunk_reader 0)) [1, 2, 3, 4, 5] (Some 1))
       = Some (Inr ds, self')
     \<and> concat ds = [1, 2, 3, 4, 5] \<and> closed self'"
proof -
  let ?self = "LowLevelResponse_init (Some (chunk_reader 0)) [1, 2, 3, 4, 5] (Some 1)"
  have h1: "internal_read_st ?self = Some (chunk_reader 0)"
    and h2: "\<not> closed ?self" and h3: "(0::int) < 2"
    by (simp_all add: LowLevelResponse_init_def)
  have rem: "remaining (\<lambda>r. r) ?self = [1, 2, 3, 4, 5]"
    by (simp add: LowLevelResponse_init_def remaining_def)
  then have len: "length (remaining (\<lambda>r. r) ?self) < 6" by simp
  from read_exact_slicing[OF chunk_reader_ok h1 h2 h3, of 6] len rem
  show ?thesis by auto
qed

section \<open>Verification: AsyncTrafficPolice\<close>

lemmas police_defs = put_def get_def get_iteration_def get_after_sleep_def release_def
  kill_cursor_def map_clear_def sacrifice_first_idle_def memorize_def forget_def
  set_cursor_def set_wait_clock_def close_item_def has_key_def push_front_def
  traffic_state_of_def AsyncTrafficPolice_init_def idle_item_def used_item_def
  locate_def locate_target_def locate_iteration_def locate_after_sleep_def beacon_def
  borrow_enter_def borrow_acquire_def borrow_exit_def clear_def
  unallocated_or_available_def idle_or_available_def
  wait_for_unallocated_or_available_slot_def wait_for_idle_or_available_slot_def Let_def

text \<open>The first two values of a clock that starts at \<open>0.0\<close> and adds \<open>0.001\<close> at each
  sleep.\<close>

lemma float_add_zero_one_ms:
  "float_add 0 one_ms = 1152921504606847 / 1152921504606846976"
  by code_simp

lemma float_add_one_ms_twice:
  "float_add (1152921504606847 / 1152921504606846976) one_ms
     = 1152921504606847 / 576460752303423488"
  by code_simp

text \<open>
  C1: with \<open>concurrency = false\<close>, \<open>put(x)\<close> followed by \<open>get()\<close> returns \<open>x\<close>, the head of
  the container.  The code at \<open>put(Ref 1); put(Ref 2); get()\<close>: \<open>put\<close> inserts at the head,
  the container is \<open>[Ref 2, Ref 1]\<close>, and \<open>get\<close> takes the pair \<open>popitem()\<close> gives, the
  last one: it returns \<open>Ref 1\<close>, the item put first, where the selective modes of the same
  method scan from the head and return \<open>Ref 2\<close>.
\<close>

theorem get_returns_oldest_put:
  "container two_puts = [(2, Ref 2), (1, Ref 1)]
   \<and> map_option fst (get 0 True None False False [] two_puts) = Some (Inr (Some (Ref 1)))
   \<and> map_option fst (get 0 True None True False [] two_puts) = Some (Inr (Some (Ref 2)))"
  by (simp add: two_puts_def police_defs)

text \<open>
  C2: with a finite timeout \<open>t\<close>, a full registry and no qualifying item, the two
  \<open>wait_for_*_slot\<close> methods raise Timeout exactly when the accumulated wait reaches \<open>t\<close>.
  The code compares \<open>combined_wait >= combined_wait\<close>: with a timeout of one second it
  raises after the first sleep of a millisecond, where the loop with the comparison
  against the timeout is still polling after two.
\<close>

theorem wait_for_slot_times_out_after_first_sleep:
  "map_option fst (wait_for_unallocated_or_available_slot (Some 1) [\<lambda>s. s, \<lambda>s. s] full_house)
     = Some (Inl TimeoutError)
   \<and> map_option fst (wait_for_idle_or_available_slot (Some 1) [\<lambda>s. s, \<lambda>s. s] full_house)
     = Some (Inl TimeoutError)
   \<and> wait_for_slot_until_timeout unallocated_or_available (Some 1) 0 [\<lambda>s. s, \<lambda>s. s] full_house
     = None
   \<and> wait_for_slot_until_timeout idle_or_available (Some 1) 0 [\<lambda>s. s, \<lambda>s. s] full_house
     = None"
  by (simp add: full_house_def police_defs float_add_zero_one_ms float_add_one_ms_twice)

text \<open>
  C5: in the shutdown state \<open>put(item)\<close> closes and discards the given item, and resets
  the flag exactly when the registry becomes empty.  The code destroys the item in the
  cursor of the calling task, not the one it is given: while task 1 still holds
  \<open>Ref 1\<close> after \<open>clear\<close>, task 0, which holds nothing, puts \<open>Ref 2\<close>, and \<open>put\<close> returns
  with the arbiter unchanged and \<open>Ref 2\<close> never closed.
\<close>

theorem put_in_shutdown_leaves_given_item_open:
  "shutdown shutting_down \<and> registry shutting_down = [(1, Ref 1)]
   \<and> ctx_cursor shutting_down 0 = None
   \<and> put 0 (Ref 2) [] False False shutting_down = (Inr (), shutting_down)
   \<and> close_calls (objects (snd (put 0 (Ref 2) [] False False shutting_down)) (Ref 2)) = 0"
  by (simp add: shutting_down_def police_defs)

text \<open>
  C9 (as stated): with \<open>maxsize\<close> set, \<open>get()\<close> returns \<open>None\<close> whenever the container is
  empty and the registry is below \<open>maxsize\<close>.  The check of the cursor comes first: a task
  that holds the only item (container empty, one of two slots used) gets \<open>AtomicTraffic\<close>.
\<close>

theorem get_below_maxsize_counterexample:
  "maxsize holding_one = Some 2 \<and> container holding_one = []
   \<and> length (registry holding_one) = 1
   \<and> map_option fst (get 0 True None False False [] holding_one) = Some (Inl AtomicTraffic)"
  by (simp add: holding_one_def police_defs)

text \<open>
  C9 (amended): with \<open>maxsize\<close> set, for a task that holds no borrowed item, \<open>get()\<close>
  returns \<open>None\<close> whenever the container is empty and the registry is strictly below
  \<open>maxsize\<close>: whatever its arguments, it does so before any sleep (so with the empty
  schedule too), raising nothing, and the arbiter is unchanged but for the wait clock that a
  timeout has started.
\<close>

theorem get_below_maxsize_returns_none:
  assumes "ctx_cursor s t = None" and "maxsize s = Some m" and "container s = []"
    and "int (length (registry s)) < m"
  shows "get t block timeout non_saturated_only not_idle_only sched s
           = Some (Inr None, if timeout \<noteq> None then set_wait_clock t (Some 0) s else s)"
  using assms
  by (cases sched) (simp_all add: get_def get_iteration_def set_wait_clock_def)

theorem get_below_maxsize_returns_none_witness:
  "get 1 True None False False [] holding_one = Some (Inr None, holding_one)"
proof -
  have "ctx_cursor holding_one 1 = None" "maxsize holding_one = Some 2"
    "container holding_one = []" "int (length (registry holding_one)) < 2"
    by (simp_all add: holding_one_def police_defs)
  from get_below_maxsize_returns_none[OF this, of True None False False "[]"]
  show ?thesis by simp
qed

text \<open>
  C10 (as stated): \<open>put\<close> of an item that is registered and in the container returns at
  once and changes nothing.  The shutdown check comes first: with \<open>concurrency = true\<close> a
  borrowed item stays in the container, and after \<open>clear\<close> the \<open>put\<close> that gives it back
  destroys it, empties the registry and the cursor.
\<close>

theorem put_registered_counterexample:
  "has_key (id_of (Ref 1)) (registry shared_in_shutdown)
   \<and> has_key (id_of (Ref 1)) (container shared_in_shutdown)
   \<and> ctx_cursor shared_in_shutdown 0 = Some (1, Ref 1)
   \<and> registry (snd (put 0 (Ref 1) [OfPromise (Ref 10)] False False shared_in_shutdown)) = []
   \<and> ctx_cursor (snd (put 0 (Ref 1) [OfPromise (Ref 10)] False False shared_in_shutdown)) 0 = None
   \<and> snd (put 0 (Ref 1) [OfPromise (Ref 10)] False False shared_in_shutdown)
       \<noteq> shared_in_shutdown"
  by (simp add: shared_in_shutdown_def police_defs)

text \<open>
  C10 (amended): when the arbiter is not shutting down, \<open>put\<close> of an item that is
  registered and in the container returns at once and leaves the whole arbiter unchanged
  (registry, container, cursor, both indicator maps); the indicators it is given are not
  memorized.
\<close>

theorem put_registered_available_is_noop:
  assumes "\<not> shutdown s" and "has_key (id_of conn_or_pool) (registry s)"
    and "has_key (id_of conn_or_pool) (container s)"
  shows "put t conn_or_pool traffic_indicators block immediately_unavailable s = (Inr (), s)"
  using assms by (simp add: put_def)

theorem put_registered_available_is_noop_witness:
  "put 0 (Ref 2) [OfPromise (Ref 10)] False False two_puts = (Inr (), two_puts)"
proof -
  have "\<not> shutdown two_puts" "has_key (id_of (Ref 2)) (registry two_puts)"
    "has_key (id_of (Ref 2)) (container two_puts)"
    by (simp_all add: two_puts_def police_defs)
  from put_registered_available_is_noop[OF this] show ?thesis .
qed

text \<open>
  C8 (as stated): for a registered item \<open>x\<close> in the container, \<open>memorize(i, x)\<close> then
  \<open>locate(i)\<close> returns \<open>x\<close>, and after \<open>forget(i)\<close> a \<open>locate(i)\<close> finds nothing.  A task
  that holds another item gets \<open>AtomicTraffic\<close> from \<open>locate\<close>; and when the indicator is
  not in \<open>_map\<close>, \<open>locate\<close> asks the nested arbiters, and returns the registered pool whose
  arbiter knows the indicator.
\<close>

theorem memorize_locate_forget_counterexample:
  "has_key (id_of (Ref 2)) (registry one_held_one_free)
   \<and> has_key (id_of (Ref 2)) (container one_held_one_free)
   \<and> fst (memorize 0 (OfPromise (Ref 10)) (Some (Ref 2)) one_held_one_free) = Inr ()
   \<and> map_option fst (locate 0 (Traffic (OfPromise (Ref 10))) True None []
        (snd (memorize 0 (OfPromise (Ref 10)) (Some (Ref 2)) one_held_one_free)))
       = Some (Inl AtomicTraffic)
   \<and> fst (forget (OfPromise (Ref 10)) manager) = Inr ()
   \<and> map_option fst (locate 0 (Traffic (OfPromise (Ref 10))) True None []
        (snd (forget (OfPromise (Ref 10)) manager)))
       = Some (Inr (Some (Ref 1)))"
  by (simp add: one_held_one_free_def manager_def pool_item_def police_defs)

lemma map_of_update_same: "map_of (AList.update k v al) k = Some v"
  by (simp add: update_conv')

lemma map_of_delete_same: "map_of (AList.delete k al) k = None"
  by (simp add: delete_conv')

lemma memorize_then_locate:
  assumes reg: "has_key (id_of x) (registry s)" and av: "has_key (id_of x) (container s)"
    and cur: "ctx_cursor s t = None \<or> ctx_cursor s t = Some (id_of x, x)"
  shows "\<exists>s1 s2. memorize t i (Some x) s = (Inr (), s1)
           \<and> locate t (Traffic i) block timeout sched s1 = Some (Inr (Some x), s2)
           \<and> ctx_cursor s2 t = Some (id_of x, x)"
proof -
  define s1 where "s1 = s\<lparr>map' := AList.update (key_of i) x (map' s),
                map_types := AList.update (key_of i) (type_of i) (map_types s)\<rparr>"
  have m: "memorize t i (Some x) s = (Inr (), s1)"
    using reg by (simp add: memorize_def s1_def)
  define s0 where "s0 = (if timeout \<noteq> None \<and> ctx_wait_clock s1 t = None
                then set_wait_clock t (Some 0) s1 else s1)"
  have tgt: "locate_target i s0 = Some (x, id_of x)"
    by (simp add: locate_target_def s0_def s1_def set_wait_clock_def map_of_update_same)
  have f0: "container s0 = container s" "ctx_cursor s0 t = ctx_cursor s t"
    by (simp_all add: s0_def s1_def set_wait_clock_def)
  have "\<exists>s2. locate_iteration t (id_of x) x block timeout s0 = Done (Inr (Some x), s2)
           \<and> ctx_cursor s2 t = Some (id_of x, x)"
    using cur av f0
    by (auto simp: locate_iteration_def set_cursor_def set_wait_clock_def Let_def)
  then obtain s2 where it: "locate_iteration t (id_of x) x block timeout s0 = Done (Inr (Some x), s2)"
    and c2: "ctx_cursor s2 t = Some (id_of x, x)" by blast
  have "locate_loop t (id_of x) x block timeout sched s0 = Some (Inr (Some x), s2)"
    using it by (cases sched) simp_all
  moreover have "locate t (Traffic i) block timeout sched s1 =
      (case locate_target i s0 of
                None \<Rightarrow> Some (Inr None, s0)
              | Some (conn_or_pool, obj_id) \<Rightarrow>
                  locate_loop t obj_id conn_or_pool block timeout sched s0)"
    unfolding locate_def Let_def s0_def by simp
  ultimately have "locate t (Traffic i) block timeout sched s1 = Some (Inr (Some x), s2)"
    using tgt by simp
  with m c2 show ?thesis by blast
qed

lemma forget_then_locate:
  assumes ok: "has_key (key_of i) (map' s) \<longrightarrow> has_key (key_of i) (map_types s)"
    and nb: "list_all (\<lambda>(r_obj_id, r). case pool (objects s r) of None \<Rightarrow> True
                        | Some nested_map \<Rightarrow> \<not> beacon i nested_map) (registry s)"
  shows "\<exists>s1 s2. forget i s = (Inr (), s1)
           \<and> locate t (Traffic i) block timeout sched s1 = Some (Inr None, s2)"
proof -
  define s1 where "s1 = (if has_key (key_of i) (map' s)
      then s\<lparr>map' := AList.delete (key_of i) (map' s),
             map_types := AList.delete (key_of i) (map_types s)\<rparr> else s)"
  have f: "forget i s = (Inr (), s1)"
    using ok by (simp add: forget_def s1_def Let_def)
  have nk: "map_of (map' s1) (key_of i) = None"
  proof (cases "has_key (key_of i) (map' s)")
    case True
    then show ?thesis by (simp add: s1_def map_of_delete_same)
  next
    case False
    then show ?thesis by (simp add: s1_def has_key_def map_of_eq_None_iff)
  qed
  have same: "registry s1 = registry s" "objects s1 = objects s"
    by (simp_all add: s1_def)
  have nf: "find (\<lambda>(r_obj_id, r_conn_or_pool).
                        case pool (objects s r_conn_or_pool) of
                          None \<Rightarrow> False
                        | Some nested_map \<Rightarrow> beacon i nested_map) (registry s) = None"
    using nb by (auto simp: find_None_iff list_all_iff split: option.splits)
  define s0 where "s0 = (if timeout \<noteq> None \<and> ctx_wait_clock s1 t = None
                then set_wait_clock t (Some 0) s1 else s1)"
  have "locate_target i s0 = None"
    using nk nf same by (simp add: locate_target_def set_wait_clock_def s0_def)
  moreover have "locate t (Traffic i) block timeout sched s1 =
      (case locate_target i s0 of
                None \<Rightarrow> Some (Inr None, s0)
              | Some (conn_or_pool, obj_id) \<Rightarrow>
                  locate_loop t obj_id conn_or_pool block timeout sched s0)"
    unfolding locate_def Let_def s0_def by simp
  ultimately have "\<exists>s2. locate t (Traffic i) block timeout sched s1 = Some (Inr None, s2)"
    by simp
  with f show ?thesis by blast
qed

lemma forget_missing_is_silent: "\<not> has_key (key_of i) (map' s) \<Longrightarrow> forget i s = (Inr (), s)"
  by (simp add: forget_def)


text \<open>
  C8 (amended): for a registered item \<open>x\<close> that is in the container and a task that holds
  no item (or holds \<open>x\<close> itself), after \<open>memorize(i, x)\<close> a \<open>locate(i)\<close> returns \<open>x\<close>, without
  sleeping, and leaves \<open>x\<close> in the cursor of the task; after \<open>forget(i)\<close> a \<open>locate(i)\<close>
  returns \<open>None\<close>, provided no registered item has a nested arbiter that knows \<open>i\<close> (and
  \<open>_map_types\<close> has the key when \<open>_map\<close> has it, as \<open>memorize\<close> leaves them); \<open>forget\<close> of
  an indicator that is not in \<open>_map\<close> raises nothing and changes nothing.
\<close>

theorem memorize_locate_forget:
  "(has_key (id_of x) (registry s) \<and> has_key (id_of x) (container s)
      \<and> (ctx_cursor s t = None \<or> ctx_cursor s t = Some (id_of x, x))
    \<longrightarrow> (\<exists>s1 s2. memorize t i (Some x) s = (Inr (), s1)
           \<and> locate t (Traffic i) block timeout sched s1 = Some (Inr (Some x), s2)
           \<and> ctx_cursor s2 t = Some (id_of x, x)))
   \<and> ((has_key (key_of i) (map' s) \<longrightarrow> has_key (key_of i) (map_types s))
      \<and> list_all (\<lambda>(r_obj_id, r). case pool (objects s r) of None \<Rightarrow> True
                        | Some nested_map \<Rightarrow> \<not> beacon i nested_map) (registry s)
    \<longrightarrow> (\<exists>s1 s2. forget i s = (Inr (), s1)
           \<and> locate t (Traffic i) block timeout sched s1 = Some (Inr None, s2)))
   \<and> (\<not> has_key (key_of i) (map' s) \<longrightarrow> forget i s = (Inr (), s))"
  using memorize_then_locate[of x s t i block timeout sched]
    forget_then_locate[of i s t block timeout sched]
    forget_missing_is_silent[of i s]
  by blast

theorem memorize_locate_forget_witness:
  "map_option fst (locate 0 (Traffic (OfPromise (Ref 10))) True None []
        (snd (memorize 0 (OfPromise (Ref 10)) (Some (Ref 2)) two_puts)))
     = Some (Inr (Some (Ref 2)))
   \<and> map_option fst (locate 0 (Traffic (OfPromise (Ref 10))) True None []
        (snd (forget (OfPromise (Ref 10))
           (snd (memorize 0 (OfPromise (Ref 10)) (Some (Ref 2)) two_puts)))))
     = Some (Inr None)
   \<and> forget (OfPromise (Ref 10)) two_puts = (Inr (), two_puts)"
proof -
  let ?i = "OfPromise (Ref 10)"
  let ?m = "snd (memorize 0 ?i (Some (Ref 2)) two_puts)"
  have h1: "has_key (id_of (Ref 2)) (registry two_puts) \<and> has_key (id_of (Ref 2)) (container two_puts)
      \<and> (ctx_cursor two_puts 0 = None \<or> ctx_cursor two_puts 0 = Some (id_of (Ref 2), Ref 2))"
    by (simp add: two_puts_def police_defs)
  have h2: "(has_key (key_of ?i) (map' ?m) \<longrightarrow> has_key (key_of ?i) (map_types ?m))
      \<and> list_all (\<lambda>(r_obj_id, r). case pool (objects ?m r) of None \<Rightarrow> True
                        | Some nested_map \<Rightarrow> \<not> beacon ?i nested_map) (registry ?m)"
    by (simp add: two_puts_def police_defs)
  have h3: "\<not> has_key (key_of ?i) (map' two_puts)"
    by (simp add: two_puts_def police_defs)
  from memorize_locate_forget[of "Ref 2" two_puts 0 ?i True None "[]"] h1 h3
  have a: "map_option fst (locate 0 (Traffic ?i) True None [] ?m) = Some (Inr (Some (Ref 2)))"
    and c: "forget ?i two_puts = (Inr (), two_puts)"
    by auto
  from memorize_locate_forget[of "Ref 2" ?m 0 ?i True None "[]"] h2
  have b: "map_option fst (locate 0 (Traffic ?i) True None [] (snd (forget ?i ?m))) = Some (Inr None)"
    by auto
  from a b c show ?thesis by simp
qed















lemma has_key_delete: "has_key k' (AList.delete k d) \<longleftrightarrow> k' \<noteq> k \<and> has_key k' d"
  unfolding has_key_def delete_keys by auto

lemma del_outdated_keys_ok:
  "distinct ks \<Longrightarrow> list_all (\<lambda>k. has_key k (map' s)) ks \<Longrightarrow> list_all (\<lambda>k. has_key k (map_types s)) ks
   \<Longrightarrow> del_outdated_keys ks s =
        (Inr (), s\<lparr>map' := filter (\<lambda>(k, v). k \<notin> set ks) (map' s),
                   map_types := filter (\<lambda>(k, v). k \<notin> set ks) (map_types s)\<rparr>)"
proof (induction ks arbitrary: s)
  case Nil
  then show ?case by simp
next
  case (Cons k ks)
  define s2 where "s2 = s\<lparr>map' := AList.delete k (map' s), map_types := AList.delete k (map_types s)\<rparr>"
  have step: "del_outdated_keys (k # ks) s = del_outdated_keys ks s2"
    using Cons.prems by (simp add: s2_def Let_def)
  have d: "distinct ks" and nk: "k \<notin> set ks" using Cons.prems(1) by auto
  have a: "list_all (\<lambda>k. has_key k (map' s2)) ks"
    using Cons.prems(2) nk by (auto simp: s2_def list_all_iff has_key_delete)
  have b: "list_all (\<lambda>k. has_key k (map_types s2)) ks"
    using Cons.prems(3) nk by (auto simp: s2_def list_all_iff has_key_delete)
  have f: "filter (\<lambda>(k', v). k' \<notin> set ks) (AList.delete k al) = filter (\<lambda>(k', v). k' \<notin> set (k # ks)) al" for al :: "(key \<times> 'b) list"
    by (induction al) (auto simp: AList.delete_eq)
  show ?case
    unfolding step Cons.IH[OF d a b]
    by (simp add: s2_def f)
qed













section \<open>Well-formedness is maintained\<close>

lemma list_all_update: "list_all P al \<Longrightarrow> P (k, v) \<Longrightarrow> list_all P (AList.update k v al)"
  by (induction al) auto

lemma dicts_ok_init: "dicts_ok (AsyncTrafficPolice_init ms conc objs)"
  by (simp add: dicts_ok_def AsyncTrafficPolice_init_def)

lemma has_key_update: "has_key k' (AList.update k v d) \<longleftrightarrow> k' = k \<or> has_key k' d"
  unfolding has_key_def using dom_update[of k v d] by auto

lemma dicts_ok_memorize:
  assumes "dicts_ok s" and "memorize t i c s = (Inr (), s')"
  shows "dicts_ok s'"
proof -
  from assms(2) obtain v where
    s': "s' = s\<lparr>map' := AList.update (key_of i) v (map' s),
                map_types := AList.update (key_of i) (type_of i) (map_types s)\<rparr>"
    by (auto simp: memorize_def split: if_splits option.splits sum.splits)
  have "list_all (\<lambda>k. has_key k (AList.update (key_of i) (type_of i) (map_types s)))
          (map fst (AList.update (key_of i) v (map' s)))"
    using assms(1) dom_update[of "key_of i" v "map' s"]
    by (auto simp: dicts_ok_def list_all_iff has_key_update)
  with assms(1) show ?thesis
    by (simp add: s' dicts_ok_def distinct_update)
qed

lemma dicts_ok_forget:
  assumes "dicts_ok s" and "forget i s = (Inr (), s')"
  shows "dicts_ok s'"
proof (cases "has_key (key_of i) (map' s)")
  case False
  with assms show ?thesis by (simp add: forget_def)
next
  case True
  with assms(2) have
    s': "s' = s\<lparr>map' := AList.delete (key_of i) (map' s),
                map_types := AList.delete (key_of i) (map_types s)\<rparr>"
    by (auto simp: forget_def Let_def split: if_splits)
  have "list_all (\<lambda>k. has_key k (AList.delete (key_of i) (map_types s)))
          (map fst (AList.delete (key_of i) (map' s)))"
    using assms(1) by (auto simp: dicts_ok_def list_all_iff has_key_delete delete_keys)
  with assms(1) show ?thesis
    by (simp add: s' dicts_ok_def distinct_delete)
qed


lemma dicts_ok_map_clear:
  assumes ok: "dicts_ok s" and mc: "map_clear c s = (r, s')"
  shows "dicts_ok s' \<and> r = Inr () \<and> registry s' = registry s"
proof (cases "has_key (id_of c) (registry s)")
  case False
  with assms show ?thesis by (simp add: map_clear_def)
next
  case True
  define ks where "ks = map fst (filter (\<lambda>(k, v). id_of v = id_of c) (map' s))"
  from ok have dist: "distinct (map fst (map' s))"
    and sync: "list_all (\<lambda>k. has_key k (map_types s)) (map fst (map' s))"
    by (simp_all add: dicts_ok_def)
  have d: "distinct ks" unfolding ks_def using dist by (simp add: distinct_map_filter)
  have sub: "set ks \<subseteq> set (map fst (map' s))" unfolding ks_def by auto
  have a: "list_all (\<lambda>k. has_key k (map' s)) ks"
    using sub by (auto simp: list_all_iff has_key_def)
  have b: "list_all (\<lambda>k. has_key k (map_types s)) ks"
    using sub sync by (auto simp: list_all_iff)
  have "map_clear c s = (Inr (), s\<lparr>map' := filter (\<lambda>(k, v). k \<notin> set ks) (map' s),
                   map_types := filter (\<lambda>(k, v). k \<notin> set ks) (map_types s)\<rparr>)"
    using True del_outdated_keys_ok[OF d a b] by (simp add: map_clear_def ks_def Let_def)
  with mc have s': "s' = s\<lparr>map' := filter (\<lambda>(k, v). k \<notin> set ks) (map' s),
                   map_types := filter (\<lambda>(k, v). k \<notin> set ks) (map_types s)\<rparr>"
    and r: "r = Inr ()" by simp_all
  have "list_all (\<lambda>k. has_key k (filter (\<lambda>(k, v). k \<notin> set ks) (map_types s)))
          (map fst (filter (\<lambda>(k, v). k \<notin> set ks) (map' s)))"
    using sync by (force simp: list_all_iff has_key_def)
  with ok r show ?thesis by (simp add: s' dicts_ok_def distinct_map_filter)
qed

lemma dicts_ok_registry_delete:
  "dicts_ok s \<Longrightarrow> dicts_ok (s\<lparr>registry := AList.delete k (registry s)\<rparr>)"
  by (auto simp: dicts_ok_def list_all_iff AList.delete_eq)

lemma dicts_ok_frame:
  "dicts_ok s \<Longrightarrow> registry s' = registry s \<Longrightarrow> map' s' = map' s
     \<Longrightarrow> map_types s' = map_types s \<Longrightarrow> dicts_ok s'"
  by (simp add: dicts_ok_def)

lemma dicts_ok_memorize_all:
  "dicts_ok s \<Longrightarrow> memorize_all t inds c s = (Inr (), s') \<Longrightarrow> dicts_ok s'"
proof (induction inds arbitrary: s)
  case Nil
  then show ?case by simp
next
  case (Cons i inds)
  obtain r s1 where m: "memorize t i (Some c) s = (r, s1)" by (cases "memorize t i (Some c) s")
  with Cons.prems(2) have r: "r = Inr ()" and rest: "memorize_all t inds c s1 = (Inr (), s')"
    by (auto split: sum.splits)
  from dicts_ok_memorize[OF Cons.prems(1) m[unfolded r]] have "dicts_ok s1" .
  from Cons.IH[OF this rest] show ?case .
qed

lemma dicts_ok_kill_cursor:
  assumes ok: "dicts_ok s" and k: "kill_cursor t s = (Inr (), s')"
  shows "dicts_ok s'"
proof (cases "ctx_cursor s t")
  case None
  with assms show ?thesis by (simp add: kill_cursor_def)
next
  case (Some p)
  obtain oid c where p: "p = (oid, c)" by (cases p)
  obtain r s1 where mc: "map_clear c s = (r, s1)" by (cases "map_clear c s")
  from dicts_ok_map_clear[OF ok mc] have ok1: "dicts_ok s1" and r: "r = Inr ()" by simp_all
  from k Some p mc r have
    "s' = set_cursor t None (close_item c (s1\<lparr>registry := AList.delete oid (registry s1)\<rparr>))"
    by (auto simp: kill_cursor_def Let_def split: if_splits)
  with dicts_ok_registry_delete[OF ok1, of oid] show ?thesis
    by (simp add: dicts_ok_def set_cursor_def close_item_def)
qed

lemma dicts_ok_sacrifice:
  assumes ok: "dicts_ok s" and k: "sacrifice_first_idle s = (Inr (), s')"
  shows "dicts_ok s'"
proof (cases "length (registry s) = 0")
  case True
  with assms show ?thesis by (simp add: sacrifice_first_idle_def)
next
  case False
  with k obtain eid ec where
    el: "find (\<lambda>(obj_id, conn_or_pool). has_key obj_id (container s)
                    \<and> traffic_state_of (objects s conn_or_pool) = IDLE) (registry s)
               = Some (eid, ec)"
    by (auto simp: sacrifice_first_idle_def split: option.splits)
  obtain r s1 where mc: "map_clear ec s = (r, s1)" by (cases "map_clear ec s")
  from dicts_ok_map_clear[OF ok mc] have ok1: "dicts_ok s1" and r: "r = Inr ()" by simp_all
  from k False el mc r have
    "s' = close_item ec (s1\<lparr>registry := AList.delete eid (registry s1),
                               container := AList.delete eid (container s1)\<rparr>)"
    by (auto simp: sacrifice_first_idle_def Let_def split: if_splits)
  with dicts_ok_registry_delete[OF ok1, of eid] show ?thesis
    by (simp add: dicts_ok_def close_item_def)
qed

lemma dicts_ok_put:
  assumes ok: "dicts_ok s"
    and p: "put t x inds block immediately_unavailable s = (Inr (), s')"
  shows "dicts_ok s'"
proof (cases "shutdown s")
  case True
  obtain r s1 where k: "kill_cursor t s = (r, s1)" by (cases "kill_cursor t s")
  with p True have r: "r = Inr ()"
    and s': "s' = (if length (registry s1) = 0 then s1\<lparr>shutdown := False\<rparr> else s1)"
    by (auto simp: put_def split: sum.splits)
  from dicts_ok_kill_cursor[OF ok k[unfolded r]] show ?thesis
    by (simp add: s' dicts_ok_def)
next
  case False
  define pre where "pre = (if maxsize s \<noteq> None \<and> int (length (registry s)) \<ge> the (maxsize s)
                  \<and> \<not> has_key (id_of x) (registry s)
               then sacrifice_first_idle s else (Inr (), s))"
  define rest where "rest = (\<lambda>s1.
             let obj_id = id_of x;
                 registered_conn_or_pool = has_key obj_id (registry s1)
             in if registered_conn_or_pool \<and> has_key obj_id (container s1) then (Inr (), s1)
                else
                  let s2 = (if registered_conn_or_pool then
                              (case ctx_cursor s1 t of
                                 None \<Rightarrow> s1
                               | Some (taken_obj_id, taken_conn_or_pool) \<Rightarrow>
                                   if taken_obj_id = obj_id then set_cursor t None s1 else s1)
                            else s1\<lparr>registry := AList.update obj_id x (registry s1)\<rparr>);
                      s3 = (if \<not> immediately_unavailable then
                              s2\<lparr>container := push_front obj_id x (container s2)\<rparr>
                            else
                              let s2' = set_cursor t (Some (obj_id, x)) s2
                              in if concurrency s2'
                                 then s2'\<lparr>container := push_front obj_id x (container s2')\<rparr>
                                 else s2')
                  in memorize_all t inds x s3)"
  have pu: "put t x inds block immediately_unavailable s =
              (case pre of (Inl e, s1) \<Rightarrow> (Inl e, s1) | (Inr u, s1) \<Rightarrow> rest s1)"
    unfolding put_def pre_def rest_def using False by simp
  obtain r s1 where pr: "pre = (r, s1)" by (cases pre)
  from p pu pr have r: "r = Inr ()" and rs: "rest s1 = (Inr (), s')"
    by (auto split: sum.splits)
  have ok1: "dicts_ok s1"
    using pr[unfolded r] ok dicts_ok_sacrifice[OF ok, of s1]
    by (auto simp: pre_def split: if_splits)
  show ?thesis
  proof (cases "has_key (id_of x) (registry s1) \<and> has_key (id_of x) (container s1)")
    case True
    with rs have "s' = s1" by (simp add: rest_def Let_def)
    with ok1 show ?thesis by simp
  next
    case nd: False
    define s2 where "s2 = (if has_key (id_of x) (registry s1) then
                              (case ctx_cursor s1 t of
                                 None \<Rightarrow> s1
                               | Some (taken_obj_id, taken_conn_or_pool) \<Rightarrow>
                                   if taken_obj_id = id_of x then set_cursor t None s1 else s1)
                            else s1\<lparr>registry := AList.update (id_of x) x (registry s1)\<rparr>)"
    define s3 where "s3 = (if \<not> immediately_unavailable then
                              s2\<lparr>container := push_front (id_of x) x (container s2)\<rparr>
                            else
                              let s2' = set_cursor t (Some (id_of x, x)) s2
                              in if concurrency s2'
                                 then s2'\<lparr>container := push_front (id_of x) x (container s2')\<rparr>
                                 else s2')"
    have m: "memorize_all t inds x s3 = (Inr (), s')"
      using rs nd unfolding rest_def s3_def s2_def Let_def by simp
    have "list_all (\<lambda>(obj_id, conn_or_pool). obj_id = id_of conn_or_pool)
            (AList.update (id_of x) x (registry s1))"
      using ok1 by (intro list_all_update) (simp_all add: dicts_ok_def)
    with ok1 have ok2: "dicts_ok s2"
      by (auto simp: s2_def dicts_ok_def set_cursor_def split: option.splits)
    then have ok3: "dicts_ok s3"
      by (auto simp: s3_def dicts_ok_def set_cursor_def Let_def)
    from dicts_ok_memorize_all[OF ok3 m] show ?thesis .
  qed
qed

end
